theory Spec2Isabelle
  imports Main
begin

section \<open>The persisted store\<close>

text \<open>
  The application keeps all of its state in one SQLite file with two tables.
  \<^verbatim>\<open>activities(name TEXT PRIMARY KEY, description TEXT, schedule TEXT,
  max_participants INTEGER)\<close> and
  \<^verbatim>\<open>participants(id INTEGER PRIMARY KEY AUTOINCREMENT, activity_name TEXT,
  email TEXT, UNIQUE(activity_name, email))\<close>.

  A table is the list of its rows in rowid order, which is the order a
  \<^verbatim>\<open>SELECT\<close> without \<^verbatim>\<open>ORDER BY\<close> scans it in; a table that has not been
  created yet is the empty list, since \<^verbatim>\<open>CREATE TABLE IF NOT EXISTS\<close> creates it
  empty and leaves an existing table alone. The column \<^verbatim>\<open>id\<close> is called
  \<open>row_id\<close> here. \<open>sqlite_sequence\<close> is the counter SQLite keeps for the
  \<^verbatim>\<open>AUTOINCREMENT\<close> column: the largest id ever handed out. Ids are naturals; the
  largest id SQLite can hand out is \<open>MAX_ROWID\<close>, and an insert that would need a
  larger one fails.
\<close>

record activity_row =
  name :: string
  description :: string
  schedule :: string
  max_participants :: "int option"

record participant_row =
  row_id :: nat
  activity_name :: string
  email :: string

record db =
  activities :: "activity_row list"
  participants :: "participant_row list"
  sqlite_sequence :: nat

text \<open>Everything the handlers can raise.\<close>

datatype exn = HTTPException nat string | IntegrityError | OperationalError | KeyError string

subsection \<open>The SQL statements\<close>

text \<open>\<^verbatim>\<open>SELECT ... FROM activities WHERE name = ?\<close> followed by \<^verbatim>\<open>fetchone()\<close>.\<close>

definition select_activity :: "db \<Rightarrow> string \<Rightarrow> activity_row option" where
  "select_activity s aname = find (\<lambda>a. name a = aname) (activities s)"

text \<open>\<^verbatim>\<open>SELECT ... FROM participants WHERE activity_name = ? AND email = ?\<close>
  followed by \<^verbatim>\<open>fetchone()\<close>.\<close>

definition select_participant :: "db \<Rightarrow> string \<Rightarrow> string \<Rightarrow> participant_row option" where
  "select_participant s aname em =
     find (\<lambda>p. activity_name p = aname \<and> email p = em) (participants s)"

text \<open>\<^verbatim>\<open>SELECT COUNT(*) FROM participants WHERE activity_name = ?\<close>.\<close>

definition count_participants :: "db \<Rightarrow> string \<Rightarrow> int" where
  "count_participants s aname =
     int (length (filter (\<lambda>p. activity_name p = aname) (participants s)))"

text \<open>\<^verbatim>\<open>SELECT COUNT(*) FROM activities\<close>.\<close>

definition count_activities :: "db \<Rightarrow> int" where
  "count_activities s = int (length (activities s))"

text \<open>The largest rowid of SQLite: 2 to the power of 63, minus 1.\<close>

definition MAX_ROWID :: nat where
  "MAX_ROWID = 9223372036854775807"

text \<open>The largest id that is in the table or was ever handed out.\<close>

definition highest_row_id :: "db \<Rightarrow> nat" where
  "highest_row_id s = fold max (map row_id (participants s)) (sqlite_sequence s)"

text \<open>The id an \<^verbatim>\<open>AUTOINCREMENT\<close> insert gets: one more than the highest id.
  Once the highest id has reached \<open>MAX_ROWID\<close> there is none left: SQLite reports
  \<^verbatim>\<open>SQLITE_FULL\<close>, which Python raises as \<^verbatim>\<open>sqlite3.OperationalError\<close>.\<close>

definition next_row_id :: "db \<Rightarrow> exn + nat" where
  "next_row_id s =
     (if highest_row_id s \<ge> MAX_ROWID then Inl OperationalError
      else Inr (Suc (highest_row_id s)))"

text \<open>\<^verbatim>\<open>INSERT INTO participants (activity_name, email) VALUES (?, ?)\<close>: SQLite
  picks the new id first, and then the \<^verbatim>\<open>UNIQUE\<close> constraint rejects a pair
  that is already there. A statement that fails writes nothing.\<close>

definition insert_participant :: "db \<Rightarrow> string \<Rightarrow> string \<Rightarrow> exn + db" where
  "insert_participant s aname em =
     (case next_row_id s of
        Inl e \<Rightarrow> Inl e
      | Inr i \<Rightarrow>
          if select_participant s aname em \<noteq> None then Inl IntegrityError
          else
            Inr (s\<lparr>participants :=
                     participants s @ [\<lparr>row_id = i, activity_name = aname, email = em\<rparr>],
                   sqlite_sequence := i\<rparr>))"

text \<open>\<^verbatim>\<open>INSERT INTO activities (...) VALUES (?, ?, ?, ?)\<close>: the primary key rejects
  a name that is already there. The table has no \<^verbatim>\<open>AUTOINCREMENT\<close> column, and
  the only inserts into it are those of the seeding, which starts from the empty
  table; its hidden rowids are then 1 to 9.\<close>

definition insert_activity :: "db \<Rightarrow> activity_row \<Rightarrow> exn + db" where
  "insert_activity s r =
     (if select_activity s (name r) \<noteq> None then Inl IntegrityError
      else Inr (s\<lparr>activities := activities s @ [r]\<rparr>))"

text \<open>\<^verbatim>\<open>DELETE FROM participants WHERE id = ?\<close>.\<close>

definition delete_participant :: "db \<Rightarrow> nat \<Rightarrow> db" where
  "delete_participant s i = s\<lparr>participants := filter (\<lambda>p. row_id p \<noteq> i) (participants s)\<rparr>"

section \<open>Bootstrap\<close>

text \<open>The seed catalogue: name, description, schedule, capacity and the initial
  participants of each activity, in the order the source lists them.\<close>

type_synonym initial_activity = "string \<times> string \<times> string \<times> int option \<times> string list"

definition INITIAL_ACTIVITIES :: "initial_activity list" where
  "INITIAL_ACTIVITIES =
    [(''Chess Club'', ''Learn strategies and compete in chess tournaments'',
      ''Fridays, 3:30 PM - 5:00 PM'', Some 12,
      [''michael@mergington.edu'', ''daniel@mergington.edu'']),
     (''Programming Class'', ''Learn programming fundamentals and build software projects'',
      ''Tuesdays and Thursdays, 3:30 PM - 4:30 PM'', Some 20,
      [''emma@mergington.edu'', ''sophia@mergington.edu'']),
     (''Gym Class'', ''Physical education and sports activities'',
      ''Mondays, Wednesdays, Fridays, 2:00 PM - 3:00 PM'', Some 30,
      [''john@mergington.edu'', ''olivia@mergington.edu'']),
     (''Soccer Team'', ''Join the school soccer team and compete in matches'',
      ''Tuesdays and Thursdays, 4:00 PM - 5:30 PM'', Some 22,
      [''liam@mergington.edu'', ''noah@mergington.edu'']),
     (''Basketball Team'', ''Practice and play basketball with the school team'',
      ''Wednesdays and Fridays, 3:30 PM - 5:00 PM'', Some 15,
      [''ava@mergington.edu'', ''mia@mergington.edu'']),
     (''Art Club'', ''Explore your creativity through painting and drawing'',
      ''Thursdays, 3:30 PM - 5:00 PM'', Some 15,
      [''amelia@mergington.edu'', ''harper@mergington.edu'']),
     (''Drama Club'', ''Act, direct, and produce plays and performances'',
      ''Mondays and Wednesdays, 4:00 PM - 5:30 PM'', Some 20,
      [''ella@mergington.edu'', ''scarlett@mergington.edu'']),
     (''Math Club'', ''Solve challenging problems and participate in math competitions'',
      ''Tuesdays, 3:30 PM - 4:30 PM'', Some 10,
      [''james@mergington.edu'', ''benjamin@mergington.edu'']),
     (''Debate Team'', ''Develop public speaking and argumentation skills'',
      ''Fridays, 4:00 PM - 5:30 PM'', Some 12,
      [''charlotte@mergington.edu'', ''henry@mergington.edu''])]"

text \<open>The inner loop of \<^verbatim>\<open>init_db\<close>: an \<^verbatim>\<open>IntegrityError\<close> of an insert is
  swallowed, any other exception (the \<^verbatim>\<open>OperationalError\<close> of an insert that
  finds no id left) leaves the loop and \<^verbatim>\<open>init_db\<close>.\<close>

fun seed_participants :: "string \<Rightarrow> string list \<Rightarrow> db \<Rightarrow> exn + db" where
  "seed_participants aname [] s = Inr s"
| "seed_participants aname (em # ems) s =
     (case insert_participant s aname em of
        Inr s' \<Rightarrow> seed_participants aname ems s'
      | Inl e \<Rightarrow> if e = IntegrityError then seed_participants aname ems s else Inl e)"

text \<open>The outer loop: the insert of the activity row is not guarded.\<close>

fun seed_activities :: "initial_activity list \<Rightarrow> db \<Rightarrow> exn + db" where
  "seed_activities [] s = Inr s"
| "seed_activities ((aname, descr, sched, max_p, ems) # rest) s =
     (case insert_activity s
             \<lparr>name = aname, description = descr, schedule = sched, max_participants = max_p\<rparr> of
        Inl e \<Rightarrow> Inl e
      | Inr s1 \<Rightarrow>
          (case seed_participants aname ems s1 of
             Inl e \<Rightarrow> Inl e
           | Inr s2 \<Rightarrow> seed_activities rest s2))"

text \<open>\<^verbatim>\<open>init_db\<close>: seed only when the activities table is empty. The seeding is
  committed once, at its end, so an exception would leave the store as it was.\<close>

definition init_db :: "db \<Rightarrow> exn + db" where
  "init_db s =
     (if count_activities s = 0 then seed_activities INITIAL_ACTIVITIES s else Inr s)"

section \<open>Listing the activities\<close>

text \<open>A Python \<^verbatim>\<open>dict\<close> keeps its keys in insertion order; assigning to a key that
  is present replaces the value where it stands.\<close>

type_synonym 'v dict = "(string \<times> 'v) list"

fun dict_setitem :: "'v dict \<Rightarrow> string \<Rightarrow> 'v \<Rightarrow> 'v dict" where
  "dict_setitem [] k v = [(k, v)]"
| "dict_setitem ((k', v') # d) k v =
     (if k' = k then (k, v) # d else (k', v') # dict_setitem d k v)"

fun dict_contains :: "'v dict \<Rightarrow> string \<Rightarrow> bool" where
  "dict_contains [] k = False"
| "dict_contains ((k', v') # d) k = (k' = k \<or> dict_contains d k)"

fun dict_getitem :: "'v dict \<Rightarrow> string \<Rightarrow> exn + 'v" where
  "dict_getitem [] k = Inl (KeyError k)"
| "dict_getitem ((k', v') # d) k = (if k' = k then Inr v' else dict_getitem d k)"

text \<open>The value stored under an activity's name.\<close>

record activity_entry =
  entry_description :: string
  entry_schedule :: string
  entry_max_participants :: "int option"
  entry_participants :: "string list"

fun build_activity_dict_loop :: "activity_row list \<Rightarrow> activity_entry dict \<Rightarrow> activity_entry dict" where
  "build_activity_dict_loop [] result = result"
| "build_activity_dict_loop (r # rows) result =
     build_activity_dict_loop rows
       (dict_setitem result (name r)
          \<lparr>entry_description = description r, entry_schedule = schedule r,
           entry_max_participants = max_participants r, entry_participants = []\<rparr>)"

definition build_activity_dict :: "activity_row list \<Rightarrow> activity_entry dict" where
  "build_activity_dict rows = build_activity_dict_loop rows []"

text \<open>The second loop of \<^verbatim>\<open>get_activities\<close>: append each participant's email to
  the entry of its activity, if the dict has one.\<close>

fun load_participants :: "participant_row list \<Rightarrow> activity_entry dict \<Rightarrow> exn + activity_entry dict" where
  "load_participants [] acts = Inr acts"
| "load_participants (row # rows) acts =
     (let aname = activity_name row in
      if dict_contains acts aname then
        (case dict_getitem acts aname of
           Inl e \<Rightarrow> Inl e
         | Inr entry \<Rightarrow>
             load_participants rows
               (dict_setitem acts aname
                  (entry\<lparr>entry_participants := entry_participants entry @ [email row]\<rparr>)))
      else load_participants rows acts)"

definition get_activities :: "db \<Rightarrow> exn + activity_entry dict" where
  "get_activities s = load_participants (participants s) (build_activity_dict (activities s))"

section \<open>Signing up and unregistering\<close>

text \<open>Each handler returns what the request gets back, the raised exception or the
  JSON body, together with the store it leaves. A handler that raises before its
  \<^verbatim>\<open>commit()\<close> leaves the store as it found it. The insert of a sign-up is
  guarded against \<^verbatim>\<open>IntegrityError\<close> only; any other exception of it leaves the
  handler as it is.\<close>

type_synonym response = "(string \<times> string) list"

definition signup_for_activity :: "db \<Rightarrow> string \<Rightarrow> string \<Rightarrow> (exn + response) \<times> db" where
  "signup_for_activity s aname em =
     (case select_activity s aname of
        None \<Rightarrow> (Inl (HTTPException 404 ''Activity not found''), s)
      | Some row \<Rightarrow>
          (let max_p = max_participants row in
           if select_participant s aname em \<noteq> None
           then (Inl (HTTPException 400 ''Student is already signed up''), s)
           else
             (let count = count_participants s aname in
              if (case max_p of None \<Rightarrow> False | Some m \<Rightarrow> count \<ge> m)
              then (Inl (HTTPException 400 ''Activity is full''), s)
              else
                (case insert_participant s aname em of
                   Inl e \<Rightarrow>
                     if e = IntegrityError
                     then (Inl (HTTPException 400 ''Student is already signed up''), s)
                     else (Inl e, s)
                 | Inr s' \<Rightarrow>
                     (Inr [(''message'', ''Signed up '' @ em @ '' for '' @ aname)], s')))))"

definition unregister_from_activity :: "db \<Rightarrow> string \<Rightarrow> string \<Rightarrow> (exn + response) \<times> db" where
  "unregister_from_activity s aname em =
     (case select_activity s aname of
        None \<Rightarrow> (Inl (HTTPException 404 ''Activity not found''), s)
      | Some _ \<Rightarrow>
          (case select_participant s aname em of
             None \<Rightarrow> (Inl (HTTPException 400 ''Student is not signed up for this activity''), s)
           | Some row \<Rightarrow>
               (Inr [(''message'', ''Unregistered '' @ em @ '' from '' @ aname)],
                delete_participant s (row_id row))))"

section \<open>Requests\<close>

text \<open>The four operations the application exposes, and the store each leaves.\<close>

datatype request = Bootstrap | ListActivities | SignUp string string | Unregister string string

fun handle :: "db \<Rightarrow> request \<Rightarrow> db" where
  "handle s Bootstrap = (case init_db s of Inl _ \<Rightarrow> s | Inr s' \<Rightarrow> s')"
| "handle s ListActivities = s"
| "handle s (SignUp aname em) = snd (signup_for_activity s aname em)"
| "handle s (Unregister aname em) = snd (unregister_from_activity s aname em)"

fun run :: "db \<Rightarrow> request list \<Rightarrow> db" where
  "run s [] = s"
| "run s (r # rs) = run (handle s r) rs"

section \<open>Vocabulary of the specification\<close>

text \<open>The error kinds of the specification are HTTP status classes of the code.\<close>

definition NotFound :: "string \<Rightarrow> exn" where
  "NotFound msg = HTTPException 404 msg"

definition Conflict :: "string \<Rightarrow> exn" where
  "Conflict msg = HTTPException 400 msg"

definition activity_exists :: "db \<Rightarrow> string \<Rightarrow> bool" where
  "activity_exists s aname = (aname \<in> name ` set (activities s))"

definition registered :: "db \<Rightarrow> string \<Rightarrow> string \<Rightarrow> bool" where
  "registered s aname em =
     ((aname, em) \<in> (\<lambda>p. (activity_name p, email p)) ` set (participants s))"

text \<open>The emails signed up for an activity, in table order.\<close>

definition participant_emails :: "db \<Rightarrow> string \<Rightarrow> string list" where
  "participant_emails s aname =
     map email (filter (\<lambda>p. activity_name p = aname) (participants s))"

text \<open>The primary key of \<^verbatim>\<open>activities\<close>: no two rows share a name.\<close>

definition primary_key :: "db \<Rightarrow> bool" where
  "primary_key s = distinct (map name (activities s))"

text \<open>Every participant row names an activity that has a row.\<close>

definition referential_integrity :: "db \<Rightarrow> bool" where
  "referential_integrity s =
     (\<forall>p \<in> set (participants s). activity_exists s (activity_name p))"

text \<open>The listing as the specification words it: one entry per activity row, keyed
  by the name, holding the description, the schedule, the capacity and the emails of
  the participant rows of that activity.\<close>

definition entry_of :: "activity_row \<Rightarrow> string list \<Rightarrow> activity_entry" where
  "entry_of r ems =
     \<lparr>entry_description = description r, entry_schedule = schedule r,
      entry_max_participants = max_participants r, entry_participants = ems\<rparr>"

definition listing :: "db \<Rightarrow> activity_entry dict" where
  "listing s = map (\<lambda>r. (name r, entry_of r (participant_emails s (name r)))) (activities s)"

section \<open>Example stores\<close>

text \<open>The store before the first start.\<close>

definition empty_db :: db where
  "empty_db = \<lparr>activities = [], participants = [], sqlite_sequence = 0\<rparr>"

text \<open>A store with an orphan: the second participant row names an activity that
  has no row.\<close>

definition orphan_db :: db where
  "orphan_db =
     \<lparr>activities =
        [\<lparr>name = ''Art Club'', description = ''Explore your creativity through painting and drawing'',
          schedule = ''Thursdays, 3:30 PM - 5:00 PM'', max_participants = Some 15\<rparr>],
      participants =
        [\<lparr>row_id = 1, activity_name = ''Art Club'', email = ''amelia@mergington.edu''\<rparr>,
         \<lparr>row_id = 2, activity_name = ''Chess Club'', email = ''x@mergington.edu''\<rparr>],
      sqlite_sequence = 2\<rparr>"

text \<open>A store with a full activity and an activity without a capacity; the
  participant with id 3 has unregistered, and so has the one with id 5.\<close>

definition small_db :: db where
  "small_db =
     \<lparr>activities =
        [\<lparr>name = ''Chess Club'', description = ''Learn strategies and compete in chess tournaments'',
          schedule = ''Fridays, 3:30 PM - 5:00 PM'', max_participants = Some 2\<rparr>,
         \<lparr>name = ''Art Club'', description = ''Explore your creativity through painting and drawing'',
          schedule = ''Thursdays, 3:30 PM - 5:00 PM'', max_participants = None\<rparr>],
      participants =
        [\<lparr>row_id = 1, activity_name = ''Chess Club'', email = ''michael@mergington.edu''\<rparr>,
         \<lparr>row_id = 2, activity_name = ''Art Club'', email = ''amelia@mergington.edu''\<rparr>,
         \<lparr>row_id = 4, activity_name = ''Chess Club'', email = ''daniel@mergington.edu''\<rparr>],
      sqlite_sequence = 5\<rparr>"

text \<open>The same store with the counter of ids at its ceiling.\<close>

definition ceiling_db :: db where
  "ceiling_db = small_db\<lparr>sqlite_sequence := MAX_ROWID\<rparr>"

section \<open>Basic facts about the statements\<close>

lemma select_activity_None: "select_activity s aname = None \<longleftrightarrow> \<not> activity_exists s aname"
  by (auto simp: select_activity_def activity_exists_def find_None_iff)

lemma select_activity_Some:
  "select_activity s aname = Some row \<Longrightarrow> row \<in> set (activities s) \<and> name row = aname"
  by (auto simp: select_activity_def find_Some_iff)

lemma find_distinct_key:
  "distinct (map f xs) \<Longrightarrow> x \<in> set xs \<Longrightarrow> find (\<lambda>a. f a = f x) xs = Some x"
  by (induction xs) (auto simp: image_iff)

text \<open>Under the primary key, the row a name selects is the one row of that name.\<close>

lemma select_activity_primary_key:
  assumes "primary_key s" "row \<in> set (activities s)"
  shows "select_activity s (name row) = Some row"
  using assms unfolding primary_key_def select_activity_def
  by (simp add: find_distinct_key)

lemma select_participant_None:
  "select_participant s aname em = None \<longleftrightarrow> \<not> registered s aname em"
  by (auto simp: select_participant_def registered_def find_None_iff)

lemma find_append_not:
  "\<forall>x\<in>set xs. \<not> P x \<Longrightarrow> find P (xs @ ys) = find P ys"
  by (induction xs) auto

lemma fold_max_ge_init: "(a::nat) \<le> fold max xs a"
  by (induction xs arbitrary: a) (auto intro: order_trans [OF max.cobounded2])

lemma fold_max_ge_mem: "(x::nat) \<in> set xs \<Longrightarrow> x \<le> fold max xs a"
proof (induction xs arbitrary: a)
  case Nil
  then show ?case by simp
next
  case (Cons y ys)
  show ?case
  proof (cases "x = y")
    case True
    have "y \<le> max y a" by simp
    also have "\<dots> \<le> fold max ys (max y a)" by (rule fold_max_ge_init)
    finally show ?thesis using True by simp
  next
    case False
    with Cons show ?thesis by simp
  qed
qed

lemma fold_max_le:
  "\<forall>x \<in> set xs. x \<le> b \<Longrightarrow> (a::nat) \<le> b \<Longrightarrow> fold max xs a \<le> b"
  by (induction xs arbitrary: a) auto

text \<open>A fresh id is larger than every id in the table.\<close>

lemma row_id_le_highest: "p \<in> set (participants s) \<Longrightarrow> row_id p \<le> highest_row_id s"
  unfolding highest_row_id_def
  by (simp add: fold_max_ge_mem)

lemma sqlite_sequence_le_highest: "sqlite_sequence s \<le> highest_row_id s"
  unfolding highest_row_id_def by (rule fold_max_ge_init)

lemma next_row_id_below:
  "highest_row_id s < MAX_ROWID \<Longrightarrow> next_row_id s = Inr (Suc (highest_row_id s))"
  by (simp add: next_row_id_def)

lemma next_row_id_ceiling:
  "MAX_ROWID \<le> highest_row_id s \<Longrightarrow> next_row_id s = Inl OperationalError"
  by (simp add: next_row_id_def)

text \<open>What an insert into \<^verbatim>\<open>participants\<close> does, case by case.\<close>

lemma insert_participant_ceiling:
  "MAX_ROWID \<le> highest_row_id s \<Longrightarrow> insert_participant s aname em = Inl OperationalError"
  by (simp add: insert_participant_def next_row_id_ceiling)

lemma insert_participant_duplicate:
  "highest_row_id s < MAX_ROWID \<Longrightarrow> registered s aname em \<Longrightarrow>
   insert_participant s aname em = Inl IntegrityError"
  using select_participant_None [of s aname em]
  by (auto simp: insert_participant_def next_row_id_below)

lemma insert_participant_fresh:
  "highest_row_id s < MAX_ROWID \<Longrightarrow> \<not> registered s aname em \<Longrightarrow>
   insert_participant s aname em =
     Inr (s\<lparr>participants := participants s @
              [\<lparr>row_id = Suc (highest_row_id s), activity_name = aname, email = em\<rparr>],
            sqlite_sequence := Suc (highest_row_id s)\<rparr>)"
  using select_participant_None [of s aname em]
  by (auto simp: insert_participant_def next_row_id_below)

lemma insert_participant_cases:
  "(MAX_ROWID \<le> highest_row_id s \<and> insert_participant s aname em = Inl OperationalError) \<or>
   (highest_row_id s < MAX_ROWID \<and> registered s aname em \<and>
      insert_participant s aname em = Inl IntegrityError) \<or>
   (highest_row_id s < MAX_ROWID \<and> \<not> registered s aname em \<and>
      insert_participant s aname em =
        Inr (s\<lparr>participants := participants s @
                 [\<lparr>row_id = Suc (highest_row_id s), activity_name = aname, email = em\<rparr>],
               sqlite_sequence := Suc (highest_row_id s)\<rparr>))"
  using insert_participant_ceiling [of s aname em] insert_participant_duplicate [of s aname em]
    insert_participant_fresh [of s aname em]
  by (cases "highest_row_id s < MAX_ROWID"; cases "registered s aname em") auto

lemma activities_insert_participant:
  "insert_participant s aname em = Inr s' \<Longrightarrow> activities s' = activities s"
  using insert_participant_cases [of s aname em] by auto

lemma highest_row_id_insert:
  assumes "highest_row_id s < MAX_ROWID" "\<not> registered s aname em"
    and "insert_participant s aname em = Inr s'"
  shows "highest_row_id s' = Suc (highest_row_id s)"
proof -
  let ?h = "highest_row_id s"
  from assms have s': "s' = s\<lparr>participants := participants s @
          [\<lparr>row_id = Suc ?h, activity_name = aname, email = em\<rparr>],
        sqlite_sequence := Suc ?h\<rparr>"
    by (simp add: insert_participant_fresh)
  have "\<forall>x \<in> set (map row_id (participants s')). x \<le> Suc ?h"
    using row_id_le_highest [of _ s] by (auto simp: s' le_Suc_eq)
  moreover have "sqlite_sequence s' \<le> Suc ?h"
    by (simp add: s')
  ultimately have "fold max (map row_id (participants s')) (sqlite_sequence s') \<le> Suc ?h"
    by (rule fold_max_le)
  then have "highest_row_id s' \<le> Suc ?h"
    by (simp add: highest_row_id_def [of s'])
  moreover have "Suc ?h \<le> highest_row_id s'"
    using sqlite_sequence_le_highest [of s'] by (simp add: s')
  ultimately show ?thesis by simp
qed

section \<open>The branches of sign-up\<close>

lemma signup_not_found:
  "\<not> activity_exists s aname \<Longrightarrow>
   signup_for_activity s aname em = (Inl (HTTPException 404 ''Activity not found''), s)"
  by (simp add: signup_for_activity_def select_activity_None [symmetric])

lemma signup_registered:
  assumes "activity_exists s aname" "registered s aname em"
  shows "signup_for_activity s aname em =
           (Inl (HTTPException 400 ''Student is already signed up''), s)"
proof -
  from assms(1) obtain row where "select_activity s aname = Some row"
    using select_activity_None [of s aname] by auto
  moreover from assms(2) obtain p where "select_participant s aname em = Some p"
    using select_participant_None [of s aname em] by auto
  ultimately show ?thesis
    by (simp add: signup_for_activity_def Let_def)
qed

text \<open>A sign-up that succeeds found the activity, did not find the pair, found an
  id left, and appended exactly one row with that fresh id.\<close>

lemma signup_success:
  assumes "fst (signup_for_activity s aname em) = Inr r"
  shows "activity_exists s aname \<and> \<not> registered s aname em \<and>
         highest_row_id s < MAX_ROWID \<and>
         snd (signup_for_activity s aname em) =
           s\<lparr>participants := participants s @
                [\<lparr>row_id = Suc (highest_row_id s), activity_name = aname, email = em\<rparr>],
             sqlite_sequence := Suc (highest_row_id s)\<rparr>"
proof (cases "activity_exists s aname")
  case False
  with assms show ?thesis by (simp add: signup_not_found)
next
  case ex: True
  show ?thesis
  proof (cases "registered s aname em")
    case True
    with ex assms show ?thesis by (simp add: signup_registered)
  next
    case False
    then have "select_participant s aname em = None"
      by (simp add: select_participant_None)
    with assms ex False insert_participant_cases [of s aname em] show ?thesis
      by (auto simp: signup_for_activity_def Let_def split: option.splits if_splits)
  qed
qed

section \<open>Sign-up: the order of the checks\<close>

text \<open>
  C1, as the claim states it, fails on a store whose counter of ids is at its
  ceiling: the activity exists, the pair is not registered and the activity has no
  capacity, so all three checks pass, but the insert finds no id left and raises
  \<^verbatim>\<open>OperationalError\<close>, which the handler does not catch. Nothing is inserted.
\<close>

theorem signup_ceiling_counterexample:
  "activity_exists ceiling_db ''Art Club'' \<and>
   \<not> registered ceiling_db ''Art Club'' ''x@mergington.edu'' \<and>
   select_activity ceiling_db ''Art Club'' =
     Some \<lparr>name = ''Art Club'',
       description = ''Explore your creativity through painting and drawing'',
       schedule = ''Thursdays, 3:30 PM - 5:00 PM'', max_participants = None\<rparr> \<and>
   signup_for_activity ceiling_db ''Art Club'' ''x@mergington.edu'' =
     (Inl OperationalError, ceiling_db)"
  by (simp add: ceiling_db_def small_db_def activity_exists_def registered_def
        signup_for_activity_def select_activity_def select_participant_def
        count_participants_def insert_participant_def next_row_id_def highest_row_id_def
        MAX_ROWID_def Let_def)

text \<open>
  C1, amended. Sign-up checks three preconditions in order and fails on the first
  one that is violated. If no activity has the name, it raises NotFound "Activity
  not found". Otherwise, if the pair is already in the participants table, it
  raises Conflict "Student is already signed up". Otherwise, if the capacity of
  the activity is not null and the number of its participants is not strictly
  below it, it raises Conflict "Activity is full". Otherwise, if the participants
  table has an id left (its highest id is below \<open>MAX_ROWID\<close>), it appends the
  participant row and answers with the confirmation; if it has none left, the
  insert raises \<^verbatim>\<open>OperationalError\<close> and nothing is inserted. In every failure
  the store is left as it was. The row of the activity is the one
  \<open>select_activity\<close> returns, which under the primary key is the only row of that
  name (\<open>select_activity_primary_key\<close>).
\<close>

theorem signup_validation_order:
  "(\<not> activity_exists s aname \<longrightarrow>
      signup_for_activity s aname em = (Inl (NotFound ''Activity not found''), s)) \<and>
   (activity_exists s aname \<and> registered s aname em \<longrightarrow>
      signup_for_activity s aname em = (Inl (Conflict ''Student is already signed up''), s)) \<and>
   (select_activity s aname = Some row \<and> \<not> registered s aname em \<and>
    max_participants row = Some m \<and> \<not> count_participants s aname < m \<longrightarrow>
      signup_for_activity s aname em = (Inl (Conflict ''Activity is full''), s)) \<and>
   (select_activity s aname = Some row \<and> \<not> registered s aname em \<and>
    (case max_participants row of None \<Rightarrow> True | Some m \<Rightarrow> count_participants s aname < m) \<and>
    highest_row_id s < MAX_ROWID \<longrightarrow>
      signup_for_activity s aname em =
        (Inr [(''message'', ''Signed up '' @ em @ '' for '' @ aname)],
         s\<lparr>participants := participants s @
              [\<lparr>row_id = Suc (highest_row_id s), activity_name = aname, email = em\<rparr>],
           sqlite_sequence := Suc (highest_row_id s)\<rparr>)) \<and>
   (select_activity s aname = Some row \<and> \<not> registered s aname em \<and>
    (case max_participants row of None \<Rightarrow> True | Some m \<Rightarrow> count_participants s aname < m) \<and>
    MAX_ROWID \<le> highest_row_id s \<longrightarrow>
      signup_for_activity s aname em = (Inl OperationalError, s))"
proof (cases "select_activity s aname")
  case None
  then have "\<not> activity_exists s aname"
    by (simp add: select_activity_None)
  with None show ?thesis
    by (simp add: signup_for_activity_def NotFound_def)
next
  case (Some r)
  then have ex: "activity_exists s aname"
    using select_activity_None [of s aname] by simp
  show ?thesis
  proof (cases "select_participant s aname em")
    case None
    then have nreg: "\<not> registered s aname em"
      by (simp add: select_participant_None)
    show ?thesis
    proof (cases "highest_row_id s < MAX_ROWID")
      case True
      with Some None ex nreg insert_participant_fresh [OF True nreg] show ?thesis
        by (auto simp: signup_for_activity_def Conflict_def Let_def split: option.splits)
    next
      case False
      then have "insert_participant s aname em = Inl OperationalError"
        by (simp add: insert_participant_ceiling)
      with Some None ex nreg False show ?thesis
        by (auto simp: signup_for_activity_def Conflict_def Let_def split: option.splits)
    qed
  next
    case (Some p)
    then have "registered s aname em"
      using select_participant_None [of s aname em] by simp
    with Some \<open>select_activity s aname = Some r\<close> ex show ?thesis
      by (simp add: signup_for_activity_def Conflict_def Let_def)
  qed
qed

theorem signup_validation_order_witness:
  "(\<not> activity_exists small_db ''Nonexistent Club'' \<and>
    signup_for_activity small_db ''Nonexistent Club'' ''x@mergington.edu'' =
      (Inl (NotFound ''Activity not found''), small_db)) \<and>
   (activity_exists small_db ''Chess Club'' \<and>
    registered small_db ''Chess Club'' ''michael@mergington.edu'' \<and>
    signup_for_activity small_db ''Chess Club'' ''michael@mergington.edu'' =
      (Inl (Conflict ''Student is already signed up''), small_db)) \<and>
   (\<not> registered small_db ''Chess Club'' ''x@mergington.edu'' \<and>
    \<not> count_participants small_db ''Chess Club'' < 2 \<and>
    signup_for_activity small_db ''Chess Club'' ''x@mergington.edu'' =
      (Inl (Conflict ''Activity is full''), small_db)) \<and>
   (\<not> registered small_db ''Art Club'' ''x@mergington.edu'' \<and>
    highest_row_id small_db < MAX_ROWID \<and>
    signup_for_activity small_db ''Art Club'' ''x@mergington.edu'' =
      (Inr [(''message'', ''Signed up x@mergington.edu for Art Club'')],
       small_db\<lparr>participants := participants small_db @
           [\<lparr>row_id = 6, activity_name = ''Art Club'', email = ''x@mergington.edu''\<rparr>],
         sqlite_sequence := 6\<rparr>)) \<and>
   (\<not> registered ceiling_db ''Art Club'' ''x@mergington.edu'' \<and>
    MAX_ROWID \<le> highest_row_id ceiling_db \<and>
    signup_for_activity ceiling_db ''Art Club'' ''x@mergington.edu'' =
      (Inl OperationalError, ceiling_db))"
proof -
  let ?chess = "\<lparr>name = ''Chess Club'',
      description = ''Learn strategies and compete in chess tournaments'',
      schedule = ''Fridays, 3:30 PM - 5:00 PM'', max_participants = Some 2\<rparr>"
  let ?art = "\<lparr>name = ''Art Club'',
      description = ''Explore your creativity through painting and drawing'',
      schedule = ''Thursdays, 3:30 PM - 5:00 PM'', max_participants = None\<rparr>"
  have n: "\<not> activity_exists small_db ''Nonexistent Club''"
    by (simp add: activity_exists_def small_db_def)
  have c: "activity_exists small_db ''Chess Club''"
    by (simp add: activity_exists_def small_db_def)
  have r: "registered small_db ''Chess Club'' ''michael@mergington.edu''"
    by (simp add: registered_def small_db_def)
  have sc: "select_activity small_db ''Chess Club'' = Some ?chess"
    by (simp add: select_activity_def small_db_def)
  have sa: "select_activity small_db ''Art Club'' = Some ?art"
    by (simp add: select_activity_def small_db_def)
  have sa': "select_activity ceiling_db ''Art Club'' = Some ?art"
    by (simp add: select_activity_def ceiling_db_def small_db_def)
  have nc: "\<not> registered small_db ''Chess Club'' ''x@mergington.edu''"
    by (simp add: registered_def small_db_def)
  have na: "\<not> registered small_db ''Art Club'' ''x@mergington.edu''"
    by (simp add: registered_def small_db_def)
  have na': "\<not> registered ceiling_db ''Art Club'' ''x@mergington.edu''"
    by (simp add: registered_def ceiling_db_def small_db_def)
  have full: "\<not> count_participants small_db ''Chess Club'' < 2"
    by (simp add: count_participants_def small_db_def)
  have h5: "highest_row_id small_db = 5"
    by (simp add: highest_row_id_def small_db_def)
  have below: "highest_row_id small_db < MAX_ROWID"
    by (simp add: h5 MAX_ROWID_def)
  have ceil: "MAX_ROWID \<le> highest_row_id ceiling_db"
    by (simp add: highest_row_id_def ceiling_db_def small_db_def MAX_ROWID_def)
  have six: "Suc 5 = 6"
    by simp
  show ?thesis
    using n c r nc na na' full below ceil
      signup_validation_order [of small_db "''Nonexistent Club''" "''x@mergington.edu''"]
      signup_validation_order [of small_db "''Chess Club''" "''michael@mergington.edu''"]
      signup_validation_order [of small_db "''Chess Club''" "''x@mergington.edu''" ?chess 2]
      signup_validation_order [of small_db "''Art Club''" "''x@mergington.edu''" ?art]
      signup_validation_order [of ceiling_db "''Art Club''" "''x@mergington.edu''" ?art]
    by (simp add: sc sa sa' h5 six)
qed

section \<open>Sign-up of a pair that is already registered\<close>

text \<open>
  C5, as the claim states it, fails on a store with an orphan row: the pair is in
  the participants table, but its activity has no row, so the first check raises
  NotFound and not Conflict.
\<close>

theorem duplicate_signup_counterexample:
  "registered orphan_db ''Chess Club'' ''x@mergington.edu'' \<and>
   fst (signup_for_activity orphan_db ''Chess Club'' ''x@mergington.edu'') =
     Inl (HTTPException 404 ''Activity not found'') \<and>
   HTTPException 404 ''Activity not found'' \<noteq> Conflict ''Student is already signed up''"
  by (simp add: orphan_db_def registered_def signup_for_activity_def select_activity_def
        Conflict_def)

text \<open>
  C5, amended. In every store in which the activity exists and the pair is already
  registered, a sign-up of that pair raises Conflict "Student is already signed
  up" and leaves the store as it was: the participants table and the number of
  participants of the activity are unchanged.
\<close>

theorem duplicate_signup_conflict:
  assumes "activity_exists s aname" and "registered s aname em"
  shows "signup_for_activity s aname em = (Inl (Conflict ''Student is already signed up''), s) \<and>
         participants (snd (signup_for_activity s aname em)) = participants s \<and>
         count_participants (snd (signup_for_activity s aname em)) aname =
           count_participants s aname"
  using signup_registered [OF assms] by (simp add: Conflict_def)

theorem duplicate_signup_conflict_witness:
  "activity_exists small_db ''Chess Club'' \<and>
   registered small_db ''Chess Club'' ''daniel@mergington.edu'' \<and>
   signup_for_activity small_db ''Chess Club'' ''daniel@mergington.edu'' =
     (Inl (Conflict ''Student is already signed up''), small_db) \<and>
   count_participants
     (snd (signup_for_activity small_db ''Chess Club'' ''daniel@mergington.edu'')) ''Chess Club'' = 2"
proof -
  have a: "activity_exists small_db ''Chess Club''"
    by (simp add: activity_exists_def small_db_def)
  have r: "registered small_db ''Chess Club'' ''daniel@mergington.edu''"
    by (simp add: registered_def small_db_def)
  have c: "count_participants small_db ''Chess Club'' = 2"
    by (simp add: count_participants_def small_db_def)
  show ?thesis
    using a r c duplicate_signup_conflict [OF a r] by simp
qed

section \<open>Sign-up followed by unregister\<close>

text \<open>
  C4. Whenever a sign-up succeeds, unregistering the same pair right after it
  succeeds as well and gives back the participants of before: the participants
  table is again the table before the sign-up, row for row (only the counter of
  handed-out ids has moved on), so the list of emails of the activity and the
  whole listing are what they were.
\<close>

theorem signup_unregister_roundtrip:
  assumes "fst (signup_for_activity s aname em) = Inr r"
  shows "unregister_from_activity (snd (signup_for_activity s aname em)) aname em =
           (Inr [(''message'', ''Unregistered '' @ em @ '' from '' @ aname)],
            s\<lparr>sqlite_sequence := Suc (highest_row_id s)\<rparr>) \<and>
         participant_emails
           (snd (unregister_from_activity (snd (signup_for_activity s aname em)) aname em)) aname =
           participant_emails s aname \<and>
         get_activities
           (snd (unregister_from_activity (snd (signup_for_activity s aname em)) aname em)) =
           get_activities s"
proof -
  let ?i = "Suc (highest_row_id s)"
  let ?new = "\<lparr>row_id = ?i, activity_name = aname, email = em\<rparr>"
  let ?s1 = "s\<lparr>participants := participants s @ [?new], sqlite_sequence := ?i\<rparr>"
  from signup_success [OF assms]
  have ex: "activity_exists s aname" and nreg: "\<not> registered s aname em"
    and s1: "snd (signup_for_activity s aname em) = ?s1"
    by simp_all
  from ex obtain row where "select_activity s aname = Some row"
    using select_activity_None [of s aname] by auto
  then have sel_a: "select_activity ?s1 aname = Some row"
    by (simp add: select_activity_def)
  from nreg have "\<forall>p\<in>set (participants s). \<not> (activity_name p = aname \<and> email p = em)"
    by (auto simp: registered_def image_iff)
  then have sel_p: "select_participant ?s1 aname em = Some ?new"
    by (simp add: select_participant_def find_append_not)
  have "filter (\<lambda>p. row_id p \<noteq> ?i) (participants s) = participants s"
    by (auto simp: filter_id_conv dest: row_id_le_highest)
  then have del: "delete_participant ?s1 ?i = s\<lparr>sqlite_sequence := ?i\<rparr>"
    by (simp add: delete_participant_def)
  have u: "unregister_from_activity ?s1 aname em =
             (Inr [(''message'', ''Unregistered '' @ em @ '' from '' @ aname)],
              s\<lparr>sqlite_sequence := ?i\<rparr>)"
    using sel_a sel_p del by (simp add: unregister_from_activity_def)
  show ?thesis
    unfolding s1 u by (simp add: participant_emails_def get_activities_def)
qed

theorem signup_unregister_roundtrip_witness:
  "fst (signup_for_activity small_db ''Art Club'' ''x@mergington.edu'') =
     Inr [(''message'', ''Signed up x@mergington.edu for Art Club'')] \<and>
   participant_emails
     (snd (unregister_from_activity
        (snd (signup_for_activity small_db ''Art Club'' ''x@mergington.edu''))
        ''Art Club'' ''x@mergington.edu'')) ''Art Club'' = [''amelia@mergington.edu'']"
proof -
  have h: "fst (signup_for_activity small_db ''Art Club'' ''x@mergington.edu'') =
             Inr [(''message'', ''Signed up x@mergington.edu for Art Club'')]"
    by (simp add: signup_for_activity_def select_activity_def select_participant_def
          count_participants_def insert_participant_def next_row_id_def highest_row_id_def
          MAX_ROWID_def Let_def small_db_def)
  have e: "participant_emails small_db ''Art Club'' = [''amelia@mergington.edu'']"
    by (simp add: participant_emails_def small_db_def)
  show ?thesis
    using h e signup_unregister_roundtrip [OF h, THEN conjunct2] by simp
qed

section \<open>Unregister: the two failures\<close>

text \<open>
  C6. Unregister raises NotFound "Activity not found" when no activity has the
  name, and raises "Student is not signed up for this activity" (status 400, the
  Conflict of the specification) when the activity exists but the pair is not in
  the participants table. In both cases the store is returned as it was, so the
  number of participants of the activity is unchanged.
\<close>

theorem unregister_failures:
  "(\<not> activity_exists s aname \<longrightarrow>
      unregister_from_activity s aname em = (Inl (NotFound ''Activity not found''), s)) \<and>
   (activity_exists s aname \<and> \<not> registered s aname em \<longrightarrow>
      unregister_from_activity s aname em =
        (Inl (HTTPException 400 ''Student is not signed up for this activity''), s)) \<and>
   (\<not> activity_exists s aname \<or> \<not> registered s aname em \<longrightarrow>
      count_participants (snd (unregister_from_activity s aname em)) aname =
        count_participants s aname)"
proof (cases "select_activity s aname")
  case None
  then have "\<not> activity_exists s aname"
    by (simp add: select_activity_None)
  with None show ?thesis
    by (simp add: unregister_from_activity_def NotFound_def)
next
  case (Some row)
  then have "activity_exists s aname"
    using select_activity_None [of s aname] by simp
  with Some show ?thesis
    using select_participant_None [of s aname em]
    by (cases "select_participant s aname em")
       (simp_all add: unregister_from_activity_def)
qed

theorem unregister_failures_witness:
  "(\<not> activity_exists small_db ''Nonexistent Club'' \<and>
    unregister_from_activity small_db ''Nonexistent Club'' ''x@mergington.edu'' =
      (Inl (NotFound ''Activity not found''), small_db)) \<and>
   (activity_exists small_db ''Chess Club'' \<and>
    \<not> registered small_db ''Chess Club'' ''x@mergington.edu'' \<and>
    unregister_from_activity small_db ''Chess Club'' ''x@mergington.edu'' =
      (Inl (HTTPException 400 ''Student is not signed up for this activity''), small_db) \<and>
    count_participants
      (snd (unregister_from_activity small_db ''Chess Club'' ''x@mergington.edu''))
      ''Chess Club'' = 2)"
proof -
  have n: "\<not> activity_exists small_db ''Nonexistent Club''"
    by (simp add: activity_exists_def small_db_def)
  have c: "activity_exists small_db ''Chess Club''"
    by (simp add: activity_exists_def small_db_def)
  have nc: "\<not> registered small_db ''Chess Club'' ''x@mergington.edu''"
    by (simp add: registered_def small_db_def)
  have two: "count_participants small_db ''Chess Club'' = 2"
    by (simp add: count_participants_def small_db_def)
  show ?thesis
    using n c nc two
      unregister_failures [of small_db "''Nonexistent Club''" "''x@mergington.edu''"]
      unregister_failures [of small_db "''Chess Club''" "''x@mergington.edu''"]
    by simp
qed

section \<open>Bootstrap is idempotent\<close>

lemma seed_participants_activities:
  "seed_participants aname ems s = Inr s' \<Longrightarrow> activities s' = activities s"
proof (induction ems arbitrary: s)
  case Nil
  then show ?case by simp
next
  case (Cons em ems)
  show ?case
  proof (cases "insert_participant s aname em")
    case (Inl e)
    with Cons.prems have "seed_participants aname ems s = Inr s'"
      by (simp split: if_splits)
    then show ?thesis by (rule Cons.IH)
  next
    case (Inr s1)
    then have "activities s1 = activities s" by (rule activities_insert_participant)
    moreover from Inr Cons.prems have "seed_participants aname ems s1 = Inr s'" by simp
    then have "activities s' = activities s1" by (rule Cons.IH)
    ultimately show ?thesis by simp
  qed
qed

text \<open>The inner loop succeeds when there are ids left for all of its inserts.\<close>

lemma seed_participants_succeeds:
  "highest_row_id s + length ems \<le> MAX_ROWID \<Longrightarrow>
   \<exists>s'. seed_participants aname ems s = Inr s' \<and>
        highest_row_id s' \<le> highest_row_id s + length ems"
proof (induction ems arbitrary: s)
  case Nil
  show ?case by simp
next
  case (Cons em ems)
  from Cons.prems have below: "highest_row_id s < MAX_ROWID" by simp
  show ?case
  proof (cases "registered s aname em")
    case True
    with below have ins: "insert_participant s aname em = Inl IntegrityError"
      by (rule insert_participant_duplicate)
    from Cons.prems have "highest_row_id s + length ems \<le> MAX_ROWID" by simp
    from Cons.IH [OF this] ins show ?thesis by auto
  next
    case False
    let ?s1 = "s\<lparr>participants := participants s @
                 [\<lparr>row_id = Suc (highest_row_id s), activity_name = aname, email = em\<rparr>],
               sqlite_sequence := Suc (highest_row_id s)\<rparr>"
    from below False have ins: "insert_participant s aname em = Inr ?s1"
      by (rule insert_participant_fresh)
    from below False ins have h1: "highest_row_id ?s1 = Suc (highest_row_id s)"
      by (rule highest_row_id_insert)
    with Cons.prems have "highest_row_id ?s1 + length ems \<le> MAX_ROWID" by simp
    from Cons.IH [OF this] ins h1 show ?thesis by auto
  qed
qed

lemma insert_activity_fresh:
  "\<not> activity_exists s (name r) \<Longrightarrow> insert_activity s r = Inr (s\<lparr>activities := activities s @ [r]\<rparr>)"
  by (simp add: insert_activity_def select_activity_None)

lemma insert_activity_Inr:
  "insert_activity s r = Inr s1 \<Longrightarrow> s1 = s\<lparr>activities := activities s @ [r]\<rparr>"
  by (auto simp: insert_activity_def split: if_splits)

text \<open>Seeding that succeeds has appended one activity row per seed.\<close>

lemma seed_activities_length:
  "seed_activities seeds s = Inr s' \<Longrightarrow>
   length (activities s') = length (activities s) + length seeds"
proof (induction seeds arbitrary: s)
  case Nil
  then show ?case by simp
next
  case (Cons seed seeds)
  obtain aname descr sched max_p ems where seed: "seed = (aname, descr, sched, max_p, ems)"
    by (cases seed) auto
  let ?r = "\<lparr>name = aname, description = descr, schedule = sched, max_participants = max_p\<rparr>"
  from Cons.prems seed obtain s1 s2 where ins: "insert_activity s ?r = Inr s1"
    and sp: "seed_participants aname ems s1 = Inr s2"
    and rest: "seed_activities seeds s2 = Inr s'"
    by (auto split: sum.splits)
  from ins have "length (activities s1) = Suc (length (activities s))"
    by (auto dest: insert_activity_Inr)
  moreover from sp have "activities s2 = activities s1"
    by (rule seed_participants_activities)
  moreover from rest have "length (activities s') = length (activities s2) + length seeds"
    by (rule Cons.IH)
  ultimately show ?case by simp
qed

text \<open>Seeding succeeds when the names of the seeds are distinct and new, and there
  are ids left for all the participants of the seeds.\<close>

lemma seed_activities_succeeds:
  assumes "distinct (map fst seeds)" and "\<forall>n \<in> set (map fst seeds). \<not> activity_exists s n"
    and "highest_row_id s + sum_list (map (\<lambda>seed. length (snd (snd (snd (snd seed))))) seeds) \<le> MAX_ROWID"
  shows "\<exists>s'. seed_activities seeds s = Inr s'"
  using assms
proof (induction seeds arbitrary: s)
  case Nil
  show ?case by simp
next
  case (Cons seed seeds)
  obtain aname descr sched max_p ems where seed: "seed = (aname, descr, sched, max_p, ems)"
    by (cases seed) auto
  let ?r = "\<lparr>name = aname, description = descr, schedule = sched, max_participants = max_p\<rparr>"
  let ?s1 = "s\<lparr>activities := activities s @ [?r]\<rparr>"
  from Cons.prems seed have "\<not> activity_exists s (name ?r)" by simp
  then have ins: "insert_activity s ?r = Inr ?s1" by (rule insert_activity_fresh)
  have h1: "highest_row_id ?s1 = highest_row_id s"
    by (simp add: highest_row_id_def)
  from Cons.prems(3) seed have "highest_row_id ?s1 + length ems \<le> MAX_ROWID"
    by (simp add: h1)
  then obtain s2 where s2: "seed_participants aname ems ?s1 = Inr s2"
    and h2: "highest_row_id s2 \<le> highest_row_id ?s1 + length ems"
    using seed_participants_succeeds by blast
  from s2 have act2: "activities s2 = activities ?s1"
    by (rule seed_participants_activities)
  have "distinct (map fst seeds)" using Cons.prems by simp
  moreover have "\<forall>n \<in> set (map fst seeds). \<not> activity_exists s2 n"
    using Cons.prems seed act2 by (auto simp: activity_exists_def)
  moreover have "highest_row_id s2 +
      sum_list (map (\<lambda>seed. length (snd (snd (snd (snd seed))))) seeds) \<le> MAX_ROWID"
    using Cons.prems(3) seed h1 h2 by simp
  ultimately obtain s' where "seed_activities seeds s2 = Inr s'"
    using Cons.IH [of s2] by auto
  with ins s2 seed show ?case by simp
qed

lemma INITIAL_ACTIVITIES_names:
  "map fst INITIAL_ACTIVITIES =
     [''Chess Club'', ''Programming Class'', ''Gym Class'', ''Soccer Team'', ''Basketball Team'',
      ''Art Club'', ''Drama Club'', ''Math Club'', ''Debate Team'']"
  by (simp add: INITIAL_ACTIVITIES_def)

lemma INITIAL_ACTIVITIES_distinct: "distinct (map fst INITIAL_ACTIVITIES)"
  unfolding INITIAL_ACTIVITIES_names by simp

lemma INITIAL_ACTIVITIES_emails:
  "sum_list (map (\<lambda>seed. length (snd (snd (snd (snd seed))))) INITIAL_ACTIVITIES) = 18"
  by (simp add: INITIAL_ACTIVITIES_def)

lemma init_db_nonempty: "activities s \<noteq> [] \<Longrightarrow> init_db s = Inr s"
  by (simp add: init_db_def count_activities_def)

lemma init_db_result_nonempty:
  assumes "init_db s = Inr s1"
  shows "activities s1 \<noteq> []"
proof (cases "activities s = []")
  case True
  with assms have "seed_activities INITIAL_ACTIVITIES s = Inr s1"
    by (simp add: init_db_def count_activities_def)
  then have "length (activities s1) = length (activities s) + length INITIAL_ACTIVITIES"
    by (rule seed_activities_length)
  then show ?thesis by (auto simp: INITIAL_ACTIVITIES_def)
next
  case False
  with assms show ?thesis by (simp add: init_db_nonempty)
qed

lemma init_db_succeeds:
  assumes "highest_row_id s + 18 \<le> MAX_ROWID"
  shows "\<exists>s1. init_db s = Inr s1"
proof (cases "activities s = []")
  case True
  then have "\<forall>n \<in> set (map fst INITIAL_ACTIVITIES). \<not> activity_exists s n"
    by (simp add: activity_exists_def)
  moreover from assms have "highest_row_id s +
      sum_list (map (\<lambda>seed. length (snd (snd (snd (snd seed))))) INITIAL_ACTIVITIES) \<le> MAX_ROWID"
    by (simp add: INITIAL_ACTIVITIES_emails)
  ultimately have "\<exists>s1. seed_activities INITIAL_ACTIVITIES s = Inr s1"
    using INITIAL_ACTIVITIES_distinct by (intro seed_activities_succeeds)
  with True show ?thesis by (simp add: init_db_def count_activities_def)
next
  case False
  then show ?thesis by (simp add: init_db_nonempty)
qed

text \<open>
  C3. Initialization is idempotent. On a store whose activities table is not empty
  it is a no-op: it returns the very store it was given, so no activity row and no
  participant row is changed, added or removed. On any store, whenever it returns,
  running it again on its result returns that result once more; and the store
  after two runs is the store after one, also when a run raises (it then leaves
  the store as it was). It does return whenever the participants table has ids
  left for the 18 seeded participants.
\<close>

theorem init_db_idempotent:
  "(activities s \<noteq> [] \<longrightarrow> init_db s = Inr s) \<and>
   (init_db s = Inr s1 \<longrightarrow> init_db s1 = Inr s1) \<and>
   handle (handle s Bootstrap) Bootstrap = handle s Bootstrap \<and>
   (highest_row_id s + 18 \<le> MAX_ROWID \<longrightarrow> (\<exists>s'. init_db s = Inr s'))"
proof (intro conjI impI)
  assume "activities s \<noteq> []"
  then show "init_db s = Inr s" by (rule init_db_nonempty)
next
  assume "init_db s = Inr s1"
  then have "activities s1 \<noteq> []" by (rule init_db_result_nonempty)
  then show "init_db s1 = Inr s1" by (rule init_db_nonempty)
next
  show "handle (handle s Bootstrap) Bootstrap = handle s Bootstrap"
  proof (cases "init_db s")
    case (Inl e)
    then show ?thesis by simp
  next
    case (Inr s')
    then have "activities s' \<noteq> []" by (rule init_db_result_nonempty)
    then have "init_db s' = Inr s'" by (rule init_db_nonempty)
    with Inr show ?thesis by simp
  qed
next
  assume "highest_row_id s + 18 \<le> MAX_ROWID"
  then show "\<exists>s'. init_db s = Inr s'" by (rule init_db_succeeds)
qed

theorem init_db_idempotent_witness:
  "activities small_db \<noteq> [] \<and> init_db small_db = Inr small_db \<and>
   highest_row_id empty_db + 18 \<le> MAX_ROWID \<and>
   (\<exists>s1. init_db empty_db = Inr s1 \<and> init_db s1 = Inr s1) \<and>
   handle (handle empty_db Bootstrap) Bootstrap = handle empty_db Bootstrap"
proof -
  have ne: "activities small_db \<noteq> []"
    by (simp add: small_db_def)
  have b: "highest_row_id empty_db + 18 \<le> MAX_ROWID"
    by (simp add: highest_row_id_def empty_db_def MAX_ROWID_def)
  from b init_db_idempotent [of empty_db] obtain s1 where s1: "init_db empty_db = Inr s1"
    by blast
  with init_db_idempotent [of empty_db s1] have "init_db s1 = Inr s1"
    by blast
  with s1 have "\<exists>s1. init_db empty_db = Inr s1 \<and> init_db s1 = Inr s1"
    by blast
  with ne b show ?thesis
    using init_db_idempotent [of small_db] init_db_idempotent [of empty_db] by simp
qed

section \<open>Referential integrity\<close>

lemma seed_participants_integrity:
  assumes "activity_exists s aname" "referential_integrity s" "seed_participants aname ems s = Inr s'"
  shows "referential_integrity s'"
  using assms
proof (induction ems arbitrary: s)
  case Nil
  then show ?case by simp
next
  case (Cons em ems)
  let ?s1 = "s\<lparr>participants := participants s @
               [\<lparr>row_id = Suc (highest_row_id s), activity_name = aname, email = em\<rparr>],
             sqlite_sequence := Suc (highest_row_id s)\<rparr>"
  from insert_participant_cases [of s aname em]
  consider (full) "insert_participant s aname em = Inl OperationalError"
    | (dup) "insert_participant s aname em = Inl IntegrityError"
    | (fresh) "insert_participant s aname em = Inr ?s1"
    by blast
  then show ?case
  proof cases
    case full
    with Cons.prems(3) show ?thesis by simp
  next
    case dup
    with Cons show ?thesis by simp
  next
    case fresh
    have "activity_exists ?s1 aname \<and> referential_integrity ?s1"
      using Cons.prems(1,2)
      by (auto simp: referential_integrity_def activity_exists_def)
    with fresh Cons.prems(3) Cons.IH [of ?s1] show ?thesis by simp
  qed
qed

lemma seed_activities_integrity:
  assumes "referential_integrity s" "seed_activities seeds s = Inr s'"
  shows "referential_integrity s'"
  using assms
proof (induction seeds arbitrary: s)
  case Nil
  then show ?case by simp
next
  case (Cons seed seeds)
  obtain aname descr sched max_p ems where seed: "seed = (aname, descr, sched, max_p, ems)"
    by (cases seed) auto
  let ?r = "\<lparr>name = aname, description = descr, schedule = sched, max_participants = max_p\<rparr>"
  from Cons.prems(2) seed obtain s1 s2 where ins: "insert_activity s ?r = Inr s1"
    and sp: "seed_participants aname ems s1 = Inr s2"
    and rest: "seed_activities seeds s2 = Inr s'"
    by (auto split: sum.splits)
  from ins have s1: "s1 = s\<lparr>activities := activities s @ [?r]\<rparr>"
    by (auto simp: insert_activity_def split: if_splits)
  have "activity_exists s1 aname"
    by (simp add: s1 activity_exists_def)
  moreover have "referential_integrity s1"
    using Cons.prems(1) by (auto simp: s1 referential_integrity_def activity_exists_def)
  ultimately have "referential_integrity s2"
    using sp by (rule seed_participants_integrity)
  then show ?case using rest by (rule Cons.IH)
qed

lemma signup_failure_store:
  "fst (signup_for_activity s aname em) = Inl e \<Longrightarrow> snd (signup_for_activity s aname em) = s"
  by (auto simp: signup_for_activity_def Let_def split: option.splits if_splits sum.splits)

lemma unregister_participants:
  "\<exists>i. participants (snd (unregister_from_activity s aname em)) =
          filter (\<lambda>p. row_id p \<noteq> i) (participants s) \<or>
       snd (unregister_from_activity s aname em) = s"
  by (auto simp: unregister_from_activity_def delete_participant_def split: option.splits)

lemma unregister_activities:
  "activities (snd (unregister_from_activity s aname em)) = activities s"
  by (auto simp: unregister_from_activity_def delete_participant_def split: option.splits)

lemma signup_activities:
  "activities (snd (signup_for_activity s aname em)) = activities s"
  by (auto simp: signup_for_activity_def Let_def
        dest: activities_insert_participant split: option.splits sum.splits)

lemma signup_integrity:
  assumes "referential_integrity s"
  shows "referential_integrity (snd (signup_for_activity s aname em))"
proof (cases "fst (signup_for_activity s aname em)")
  case (Inl e)
  with assms show ?thesis by (simp add: signup_failure_store)
next
  case (Inr r)
  from signup_success [OF Inr] assms show ?thesis
    by (auto simp: referential_integrity_def activity_exists_def)
qed

lemma unregister_integrity:
  assumes "referential_integrity s"
  shows "referential_integrity (snd (unregister_from_activity s aname em))"
  using assms unregister_participants [of s aname em] unregister_activities [of s aname em]
  by (auto simp: referential_integrity_def activity_exists_def)

lemma init_db_integrity:
  assumes "referential_integrity s" "init_db s = Inr s'"
  shows "referential_integrity s'"
  using assms by (auto simp: init_db_def split: if_splits intro: seed_activities_integrity)

text \<open>
  C8. Referential integrity is preserved by every request. If every participant
  row of the store names an activity that has a row, the same holds of the store
  that bootstrap, the listing, a sign-up or an unregister leaves. In particular a
  sign-up for a name that no activity has inserts nothing.
\<close>

theorem referential_integrity_preserved:
  assumes "referential_integrity s"
  shows "referential_integrity (handle s req) \<and>
         (\<not> activity_exists s aname \<longrightarrow>
            participants (snd (signup_for_activity s aname em)) = participants s)"
proof
  show "referential_integrity (handle s req)"
  proof (cases req)
    case Bootstrap
    with assms show ?thesis
      by (auto split: sum.splits intro: init_db_integrity)
  next
    case ListActivities
    with assms show ?thesis by simp
  next
    case (SignUp a e)
    with assms show ?thesis by (simp add: signup_integrity)
  next
    case (Unregister a e)
    with assms show ?thesis by (simp add: unregister_integrity)
  qed
next
  show "\<not> activity_exists s aname \<longrightarrow>
          participants (snd (signup_for_activity s aname em)) = participants s"
    by (simp add: signup_not_found)
qed

theorem referential_integrity_preserved_witness:
  "referential_integrity small_db \<and>
   referential_integrity (handle small_db (SignUp ''Art Club'' ''x@mergington.edu'')) \<and>
   referential_integrity (handle small_db Bootstrap) \<and>
   \<not> activity_exists small_db ''Nonexistent Club'' \<and>
   participants (snd (signup_for_activity small_db ''Nonexistent Club'' ''x@mergington.edu'')) =
     participants small_db"
proof -
  have r: "referential_integrity small_db"
    by (simp add: referential_integrity_def activity_exists_def small_db_def)
  have n: "\<not> activity_exists small_db ''Nonexistent Club''"
    by (simp add: activity_exists_def small_db_def)
  show ?thesis
    using r n
      referential_integrity_preserved [OF r,
        of "SignUp ''Art Club'' ''x@mergington.edu''" "''Nonexistent Club''" "''x@mergington.edu''"]
      referential_integrity_preserved [OF r, of Bootstrap]
    by simp
qed

section \<open>Capacity\<close>

lemma signup_full:
  assumes "select_activity s aname = Some row" "max_participants row = Some m"
    and "m \<le> count_participants s aname"
  shows "\<exists>e. fst (signup_for_activity s aname em) = Inl e"
  using assms by (simp add: signup_for_activity_def Let_def)

lemma count_filter_le:
  "length (filter (\<lambda>x. Q x \<and> P x) xs) \<le> length (filter P xs)"
  by (induction xs) auto

lemma unregister_count_le:
  "count_participants (snd (unregister_from_activity s aname em)) a \<le> count_participants s a"
  using unregister_participants [of s aname em]
  by (auto simp: count_participants_def count_filter_le)

lemma signup_count_le:
  assumes "primary_key s" "row \<in> set (activities s)" "max_participants row = Some m"
    and "count_participants s (name row) \<le> m"
  shows "count_participants (snd (signup_for_activity s aname em)) (name row) \<le> m"
proof (cases "fst (signup_for_activity s aname em)")
  case (Inl e)
  with assms(4) show ?thesis by (simp add: signup_failure_store)
next
  case (Inr r)
  note s1 = signup_success [OF Inr, THEN conjunct2, THEN conjunct2, THEN conjunct2]
  show ?thesis
  proof (cases "aname = name row")
    case True
    from assms(1,2) have "select_activity s (name row) = Some row"
      by (rule select_activity_primary_key)
    with signup_full [of s aname row m em] assms(3) Inr True
    have "count_participants s (name row) < m" by fastforce
    then show ?thesis
      unfolding s1 using True by (simp add: count_participants_def)
  next
    case False
    with assms(4) show ?thesis
      unfolding s1 by (simp add: count_participants_def)
  qed
qed

lemma handle_activities:
  "activities s \<noteq> [] \<Longrightarrow> activities (handle s req) = activities s"
  by (cases req) (simp_all add: init_db_nonempty signup_activities unregister_activities)

lemma handle_count_le:
  assumes "primary_key s" "row \<in> set (activities s)" "max_participants row = Some m"
    and "count_participants s (name row) \<le> m"
  shows "count_participants (handle s req) (name row) \<le> m"
proof (cases req)
  case Bootstrap
  from assms(2) have "activities s \<noteq> []" by auto
  with Bootstrap assms(4) show ?thesis by (simp add: init_db_nonempty)
next
  case ListActivities
  with assms(4) show ?thesis by simp
next
  case (SignUp a e)
  with assms show ?thesis by (simp add: signup_count_le)
next
  case (Unregister a e)
  have "count_participants (snd (unregister_from_activity s a e)) (name row)
          \<le> count_participants s (name row)"
    by (rule unregister_count_le)
  with Unregister assms(4) show ?thesis by simp
qed

lemma run_count_le:
  assumes "primary_key s" "row \<in> set (activities s)" "max_participants row = Some m"
    and "count_participants s (name row) \<le> m"
  shows "count_participants (run s reqs) (name row) \<le> m"
  using assms
proof (induction reqs arbitrary: s)
  case Nil
  then show ?case by simp
next
  case (Cons req reqs)
  from Cons.prems(2) have ne: "activities s \<noteq> []" by auto
  have act: "activities (handle s req) = activities s"
    using ne by (rule handle_activities)
  have "primary_key (handle s req)"
    using Cons.prems(1) act by (simp add: primary_key_def)
  moreover have "row \<in> set (activities (handle s req))"
    using Cons.prems(2) act by simp
  moreover have "count_participants (handle s req) (name row) \<le> m"
    using Cons.prems by (rule handle_count_le)
  ultimately show ?case
    using Cons.IH [of "handle s req"] Cons.prems(3) by simp
qed

lemma run_activities:
  "activities s \<noteq> [] \<Longrightarrow> activities (run s reqs) = activities s"
  by (induction reqs arbitrary: s) (simp_all add: handle_activities)

text \<open>
  C2. Take a store that respects the primary key, an activity row of it with a
  capacity that is not null, and suppose the activity has no more participant rows
  than its capacity. Then after any sequence of requests applied one after the
  other, sign-ups and unregisters in particular, and after every prefix of it, the
  activity still has no more participant rows than its capacity, and its row is
  still there.
\<close>

theorem capacity_never_exceeded:
  assumes "primary_key s" and "row \<in> set (activities s)"
    and "max_participants row = Some m"
    and "count_participants s (name row) \<le> m"
  shows "count_participants (run s (take k reqs)) (name row) \<le> m \<and>
         row \<in> set (activities (run s (take k reqs)))"
proof
  show "count_participants (run s (take k reqs)) (name row) \<le> m"
    using assms by (rule run_count_le)
next
  from assms(2) have "activities s \<noteq> []" by auto
  then have "activities (run s (take k reqs)) = activities s"
    by (rule run_activities)
  with assms(2) show "row \<in> set (activities (run s (take k reqs)))" by simp
qed

theorem capacity_never_exceeded_witness:
  "primary_key small_db \<and>
   count_participants small_db ''Chess Club'' \<le> 2 \<and>
   count_participants
     (run small_db
        (take 3 [SignUp ''Chess Club'' ''x@mergington.edu'',
                 Unregister ''Chess Club'' ''michael@mergington.edu'',
                 SignUp ''Chess Club'' ''x@mergington.edu'',
                 SignUp ''Chess Club'' ''y@mergington.edu'']))
     ''Chess Club'' \<le> 2"
proof -
  let ?chess = "\<lparr>name = ''Chess Club'',
      description = ''Learn strategies and compete in chess tournaments'',
      schedule = ''Fridays, 3:30 PM - 5:00 PM'', max_participants = Some 2\<rparr>"
  have pk: "primary_key small_db"
    by (simp add: primary_key_def small_db_def)
  have mem: "?chess \<in> set (activities small_db)"
    by (simp add: small_db_def)
  have cap: "max_participants ?chess = Some 2"
    by simp
  have cnt: "count_participants small_db (name ?chess) \<le> 2"
    by (simp add: count_participants_def small_db_def)
  show ?thesis
    using pk cnt capacity_never_exceeded [OF pk mem cap cnt, of 3
        "[SignUp ''Chess Club'' ''x@mergington.edu'',
          Unregister ''Chess Club'' ''michael@mergington.edu'',
          SignUp ''Chess Club'' ''x@mergington.edu'',
          SignUp ''Chess Club'' ''y@mergington.edu'']"]
    by simp
qed

section \<open>The listing\<close>

lemma dict_contains_keys: "dict_contains d k \<longleftrightarrow> k \<in> fst ` set d"
  by (induction d) auto

lemma dict_getitem_contains: "dict_contains d k \<Longrightarrow> \<exists>v. dict_getitem d k = Inr v"
  by (induction d) auto

lemma dict_setitem_keys_present:
  "dict_contains d k \<Longrightarrow> map fst (dict_setitem d k v) = map fst d"
  by (induction d) auto

lemma dict_setitem_absent:
  "\<not> dict_contains d k \<Longrightarrow> dict_setitem d k v = d @ [(k, v)]"
  by (induction d) auto

lemma dict_setitem_key_set: "fst ` set (dict_setitem d k v) = insert k (fst ` set d)"
  by (induction d k v rule: dict_setitem.induct) (simp_all add: insert_commute)

lemma load_participants_total:
  "\<exists>d'. load_participants ps d = Inr d' \<and> map fst d' = map fst d"
proof (induction ps arbitrary: d)
  case Nil
  show ?case by simp
next
  case (Cons p ps)
  show ?case
  proof (cases "dict_contains d (activity_name p)")
    case True
    then obtain v where v: "dict_getitem d (activity_name p) = Inr v"
      using dict_getitem_contains by blast
    let ?d1 = "dict_setitem d (activity_name p)
                 (v\<lparr>entry_participants := entry_participants v @ [email p]\<rparr>)"
    have "map fst ?d1 = map fst d"
      using True by (rule dict_setitem_keys_present)
    with Cons.IH [of ?d1] True v show ?thesis by (simp add: Let_def)
  next
    case False
    with Cons.IH [of d] show ?thesis by (simp add: Let_def)
  qed
qed

lemma load_participants_append:
  "load_participants (xs @ ys) d =
     (case load_participants xs d of Inl e \<Rightarrow> Inl e | Inr d' \<Rightarrow> load_participants ys d')"
proof (induction xs arbitrary: d)
  case Nil
  show ?case by simp
next
  case (Cons p xs)
  show ?case
  proof (cases "dict_contains d (activity_name p)")
    case True
    then obtain v where v: "dict_getitem d (activity_name p) = Inr v"
      using dict_getitem_contains by blast
    with True Cons.IH show ?thesis by (simp add: Let_def)
  next
    case False
    with Cons.IH show ?thesis by (simp add: Let_def)
  qed
qed

lemma build_activity_dict_loop_keys:
  "fst ` set (build_activity_dict_loop rows acc) = fst ` set acc \<union> name ` set rows"
  by (induction rows arbitrary: acc) (simp_all add: dict_setitem_key_set)

lemma build_activity_dict_keys:
  "k \<in> fst ` set (build_activity_dict (activities s)) \<longleftrightarrow> activity_exists s k"
  by (simp add: build_activity_dict_def build_activity_dict_loop_keys activity_exists_def)

lemma build_activity_dict_loop_distinct:
  assumes "distinct (map name rows)" "fst ` set acc \<inter> name ` set rows = {}"
  shows "build_activity_dict_loop rows acc = acc @ map (\<lambda>r. (name r, entry_of r [])) rows"
  using assms
proof (induction rows arbitrary: acc)
  case Nil
  show ?case by simp
next
  case (Cons r rows)
  from Cons.prems(2) have "\<not> dict_contains acc (name r)"
    by (auto simp: dict_contains_keys)
  then have step: "dict_setitem acc (name r) (entry_of r []) = acc @ [(name r, entry_of r [])]"
    by (rule dict_setitem_absent)
  have "fst ` set (acc @ [(name r, entry_of r [])]) \<inter> name ` set rows = {}"
    using Cons.prems by auto
  with Cons.IH [of "acc @ [(name r, entry_of r [])]"] Cons.prems(1) step
  show ?case by (simp add: entry_of_def)
qed

lemma build_activity_dict_distinct:
  "distinct (map name rows) \<Longrightarrow>
   build_activity_dict rows = map (\<lambda>r. (name r, entry_of r [])) rows"
  using build_activity_dict_loop_distinct [of rows "[]"] by (simp add: build_activity_dict_def)

lemma dict_getitem_map:
  "distinct (map k rows) \<Longrightarrow> r \<in> set rows \<Longrightarrow>
   dict_getitem (map (\<lambda>r. (k r, v r)) rows) (k r) = Inr (v r)"
  by (induction rows) (auto simp: image_iff)

lemma dict_setitem_map:
  "distinct (map k rows) \<Longrightarrow> r \<in> set rows \<Longrightarrow>
   dict_setitem (map (\<lambda>r. (k r, v r)) rows) (k r) x =
     map (\<lambda>r'. (k r', if r' = r then x else v r')) rows"
proof (induction rows)
  case Nil
  then show ?case by simp
next
  case (Cons r0 rows)
  show ?case
  proof (cases "r0 = r")
    case True
    with Cons.prems have "r \<notin> set rows" by auto
    then have "map (\<lambda>r'. (k r', if r' = r then x else v r')) rows = map (\<lambda>r. (k r, v r)) rows"
      by (intro map_cong) auto
    with True show ?thesis by simp
  next
    case False
    with Cons.prems have "r \<in> set rows" "k r0 \<noteq> k r" by (auto simp: image_iff)
    with Cons False show ?thesis by simp
  qed
qed

lemma load_participants_distinct:
  assumes "distinct (map name rows)"
  shows "load_participants ps (map (\<lambda>r. (name r, entry_of r (f (name r)))) rows) =
           Inr (map (\<lambda>r. (name r, entry_of r
                  (f (name r) @ map email (filter (\<lambda>p. activity_name p = name r) ps)))) rows)"
proof (induction ps arbitrary: f)
  case Nil
  show ?case by simp
next
  case (Cons p ps)
  let ?a = "activity_name p"
  let ?d = "map (\<lambda>r. (name r, entry_of r (f (name r)))) rows"
  show ?case
  proof (cases "?a \<in> name ` set rows")
    case False
    then have "\<not> dict_contains ?d ?a"
      by (auto simp: dict_contains_keys image_iff)
    moreover have "\<forall>r \<in> set rows. activity_name p \<noteq> name r"
      using False by auto
    ultimately show ?thesis
      using Cons.IH [of f] by (simp add: Let_def cong: map_cong)
  next
    case True
    then obtain r where r: "r \<in> set rows" "name r = ?a" by auto
    have c: "dict_contains ?d ?a"
      using True by (auto simp: dict_contains_keys image_iff)
    have g: "dict_getitem ?d ?a = Inr (entry_of r (f ?a))"
      using dict_getitem_map [OF assms r(1), of "\<lambda>r. entry_of r (f (name r))"] r(2) by simp
    let ?f' = "f(?a := f ?a @ [email p])"
    have "dict_setitem ?d ?a (entry_of r (f ?a @ [email p])) =
            map (\<lambda>r'. (name r', if r' = r then entry_of r (f ?a @ [email p])
                                 else entry_of r' (f (name r')))) rows"
      using dict_setitem_map [OF assms r(1), of "\<lambda>r. entry_of r (f (name r))"] r(2) by simp
    also have "\<dots> = map (\<lambda>r'. (name r', entry_of r' (?f' (name r')))) rows"
    proof (intro map_cong refl)
      fix r' assume "r' \<in> set rows"
      with assms r have "name r' = ?a \<longleftrightarrow> r' = r"
        by (auto simp: distinct_map inj_on_def)
      with r(2) show "(name r', if r' = r then entry_of r (f ?a @ [email p])
                                 else entry_of r' (f (name r'))) =
                      (name r', entry_of r' (?f' (name r')))"
        by auto
    qed
    finally have st: "dict_setitem ?d ?a (entry_of r (f ?a @ [email p])) =
                        map (\<lambda>r'. (name r', entry_of r' (?f' (name r')))) rows" .
    have upd: "(entry_of r (f ?a))\<lparr>entry_participants :=
                 entry_participants (entry_of r (f ?a)) @ [email p]\<rparr> =
               entry_of r (f ?a @ [email p])"
      by (simp add: entry_of_def)
    have "load_participants (p # ps) ?d =
            load_participants ps (map (\<lambda>r'. (name r', entry_of r' (?f' (name r')))) rows)"
      using c g by (simp add: Let_def upd st)
    also have "\<dots> = Inr (map (\<lambda>r. (name r, entry_of r
                  (?f' (name r) @ map email (filter (\<lambda>p. activity_name p = name r) ps)))) rows)"
      by (rule Cons.IH)
    also have "\<dots> = Inr (map (\<lambda>r. (name r, entry_of r
                  (f (name r) @ map email (filter (\<lambda>q. activity_name q = name r) (p # ps))))) rows)"
      by (auto intro!: map_cong)
    finally show ?thesis .
  qed
qed

text \<open>
  C7. Listing the activities never fails. On a store that respects the primary key
  it returns the mapping with exactly one entry per activity row, in table order,
  keyed by the name of the activity and holding its description, its schedule,
  its capacity and the emails of the participant rows whose activity name is that
  name. When there are no activities it returns the empty mapping.
\<close>

theorem get_activities_listing:
  "(\<exists>d. get_activities s = Inr d) \<and>
   (primary_key s \<longrightarrow> get_activities s = Inr (listing s)) \<and>
   (activities s = [] \<longrightarrow> get_activities s = Inr [])"
proof (intro conjI impI)
  show "\<exists>d. get_activities s = Inr d"
    using load_participants_total [of "participants s" "build_activity_dict (activities s)"]
    by (auto simp: get_activities_def)
next
  assume "primary_key s"
  then have d: "distinct (map name (activities s))" by (simp add: primary_key_def)
  show "get_activities s = Inr (listing s)"
    using load_participants_distinct [OF d, of "participants s" "\<lambda>_. []"]
    by (simp add: get_activities_def build_activity_dict_distinct [OF d] listing_def
          participant_emails_def)
next
  assume "activities s = []"
  then show "get_activities s = Inr []"
    using load_participants_total [of "participants s" "[]"]
    by (auto simp: get_activities_def build_activity_dict_def)
qed

theorem get_activities_listing_witness:
  "primary_key small_db \<and>
   get_activities small_db =
     Inr [(''Chess Club'',
           \<lparr>entry_description = ''Learn strategies and compete in chess tournaments'',
            entry_schedule = ''Fridays, 3:30 PM - 5:00 PM'',
            entry_max_participants = Some 2,
            entry_participants = [''michael@mergington.edu'', ''daniel@mergington.edu'']\<rparr>),
          (''Art Club'',
           \<lparr>entry_description = ''Explore your creativity through painting and drawing'',
            entry_schedule = ''Thursdays, 3:30 PM - 5:00 PM'',
            entry_max_participants = None,
            entry_participants = [''amelia@mergington.edu'']\<rparr>)] \<and>
   activities empty_db = [] \<and> get_activities empty_db = Inr []"
proof -
  have pk: "primary_key small_db"
    by (simp add: primary_key_def small_db_def)
  have l: "listing small_db =
     [(''Chess Club'',
       \<lparr>entry_description = ''Learn strategies and compete in chess tournaments'',
        entry_schedule = ''Fridays, 3:30 PM - 5:00 PM'',
        entry_max_participants = Some 2,
        entry_participants = [''michael@mergington.edu'', ''daniel@mergington.edu'']\<rparr>),
      (''Art Club'',
       \<lparr>entry_description = ''Explore your creativity through painting and drawing'',
        entry_schedule = ''Thursdays, 3:30 PM - 5:00 PM'',
        entry_max_participants = None,
        entry_participants = [''amelia@mergington.edu'']\<rparr>)]"
    by (simp add: listing_def entry_of_def participant_emails_def small_db_def)
  have e: "activities empty_db = []"
    by (simp add: empty_db_def)
  show ?thesis
    using pk e get_activities_listing [of small_db] get_activities_listing [of empty_db]
    by (simp add: l)
qed

section \<open>Orphan participant rows\<close>

text \<open>
  C10. The listing leaves orphans out. If a participant row of the store names an
  activity that has no row, the listing is the one of the store without that row,
  and it has no entry under the name the row gives.
\<close>

theorem orphans_omitted:
  assumes "participants s = xs @ p # ys" and "\<not> activity_exists s (activity_name p)"
  shows "get_activities s = get_activities (s\<lparr>participants := xs @ ys\<rparr>) \<and>
         (\<exists>d. get_activities s = Inr d \<and> \<not> dict_contains d (activity_name p))"
proof -
  let ?D = "build_activity_dict (activities s)"
  obtain d1 where d1: "load_participants xs ?D = Inr d1" and k1: "map fst d1 = map fst ?D"
    using load_participants_total by blast
  have "fst ` set d1 = fst ` set ?D"
    using k1 by (metis set_map)
  then have nc: "\<not> dict_contains d1 (activity_name p)"
    using assms(2) by (simp add: dict_contains_keys build_activity_dict_keys)
  then have skip: "load_participants (p # ys) d1 = load_participants ys d1"
    by (simp add: Let_def)
  have "load_participants (xs @ p # ys) ?D = load_participants (p # ys) d1"
    by (simp add: load_participants_append d1 del: load_participants.simps)
  then have eq: "get_activities s = load_participants ys d1"
    by (simp only: get_activities_def assms(1) skip)
  have eq': "get_activities (s\<lparr>participants := xs @ ys\<rparr>) = load_participants ys d1"
    by (simp add: get_activities_def load_participants_append d1)
  obtain d where d: "load_participants ys d1 = Inr d" and k: "map fst d = map fst d1"
    using load_participants_total by blast
  have "fst ` set d = fst ` set d1"
    using k by (metis set_map)
  then have "\<not> dict_contains d (activity_name p)"
    using nc by (simp add: dict_contains_keys)
  with eq eq' d show ?thesis by simp
qed

theorem orphans_omitted_witness:
  "\<not> activity_exists orphan_db ''Chess Club'' \<and>
   get_activities orphan_db =
     get_activities
       (orphan_db\<lparr>participants :=
          [\<lparr>row_id = 1, activity_name = ''Art Club'', email = ''amelia@mergington.edu''\<rparr>]\<rparr>)"
proof -
  let ?p = "\<lparr>row_id = 2, activity_name = ''Chess Club'', email = ''x@mergington.edu''\<rparr>"
  have ps: "participants orphan_db =
      [\<lparr>row_id = 1, activity_name = ''Art Club'', email = ''amelia@mergington.edu''\<rparr>] @ ?p # []"
    by (simp add: orphan_db_def)
  have n: "\<not> activity_exists orphan_db (activity_name ?p)"
    by (simp add: activity_exists_def orphan_db_def)
  show ?thesis
    using n orphans_omitted [OF ps n] by simp
qed

section \<open>Frame: the activities table\<close>

text \<open>
  C9. Signing up and unregistering never touch the activities table: whatever
  the store and the arguments, and whether the request succeeds or fails, the
  table of activities afterwards is the table before, row for row.
\<close>

theorem signup_unregister_keep_activities:
  "activities (snd (signup_for_activity s aname em)) = activities s \<and>
   activities (snd (unregister_from_activity s aname em)) = activities s"
  by (auto simp: signup_for_activity_def unregister_from_activity_def Let_def
        delete_participant_def
        dest: activities_insert_participant split: option.splits sum.splits)

theorem signup_unregister_keep_activities_witness:
  "activities (snd (signup_for_activity small_db ''Art Club'' ''x@mergington.edu'')) =
     activities small_db \<and>
   activities (snd (unregister_from_activity small_db ''Art Club'' ''amelia@mergington.edu'')) =
     activities small_db"
  using signup_unregister_keep_activities [of small_db "''Art Club''" "''x@mergington.edu''"]
    signup_unregister_keep_activities [of small_db "''Art Club''" "''amelia@mergington.edu''"]
  by simp

end
